theory Spec2Isabelle
  imports Main "HOL-Library.Sublist"
begin

section \<open>Python strings and the string operations the store uses\<close>

text \<open>
  A Python \<open>str\<close> is a sequence of Unicode code points, so a string is a list of
  naturals here. \<open>str\<close> turns an Isabelle literal into such a list. The log file is
  modelled by its decoded text: the encoding of \<open>data.db\<close> is taken to round-trip.
\<close>

type_synonym pystr = "nat list"

definition str :: "string \<Rightarrow> pystr" where
  "str s = map of_char s"

definition LF :: nat where "LF = 10"
definition CR :: nat where "CR = 13"
definition SP :: nat where "SP = 32"

text \<open>\<open>str.isspace\<close> for one code point: the code points CPython lists as whitespace.\<close>

definition py_isspace :: "nat \<Rightarrow> bool" where
  "py_isspace c \<longleftrightarrow>
     (9 \<le> c \<and> c \<le> 13) \<or> (28 \<le> c \<and> c \<le> 32) \<or> c = 133 \<or> c = 160 \<or> c = 5760 \<or>
     (8192 \<le> c \<and> c \<le> 8202) \<or> c = 8232 \<or> c = 8233 \<or> c = 8239 \<or> c = 8287 \<or> c = 12288"

text \<open>\<open>s.strip()\<close>: whitespace removed at both ends.\<close>

definition py_strip :: "pystr \<Rightarrow> pystr" where
  "py_strip s = rev (dropWhile py_isspace (rev (dropWhile py_isspace s)))"

text \<open>\<open>s.startswith(p)\<close>.\<close>

definition startswith :: "pystr \<Rightarrow> pystr \<Rightarrow> bool" where
  "startswith s p \<longleftrightarrow> take (length p) s = p"

text \<open>
  \<open>s.split(None, maxsplit)\<close>: at most \<open>maxsplit\<close> tokens are cut off at runs of
  whitespace; what is left, without its leading whitespace, is the last element when it
  is not empty.
\<close>

fun py_split :: "nat \<Rightarrow> pystr \<Rightarrow> pystr list" where
  "py_split 0 s =
     (let r = dropWhile py_isspace s in if r = [] then [] else [r])"
| "py_split (Suc n) s =
     (let r = dropWhile py_isspace s in
      if r = [] then []
      else takeWhile (\<lambda>c. \<not> py_isspace c) r
           # py_split n (dropWhile (\<lambda>c. \<not> py_isspace c) r))"

text \<open>
  Reading a text file opened with \<open>open(DATA_FILE, 'r')\<close>: universal newlines turn
  \<open>\r\n\<close> and a lone \<open>\r\<close> into \<open>\n\<close>, and iterating the file yields the lines with
  their terminator, the last one as it is when the file does not end with a newline.
\<close>

fun universal_newlines :: "pystr \<Rightarrow> pystr" where
  "universal_newlines [] = []"
| "universal_newlines [c] = (if c = CR then [LF] else [c])"
| "universal_newlines (c # d # cs) =
     (if c = CR then
        (if d = LF then LF # universal_newlines cs else LF # universal_newlines (d # cs))
      else c # universal_newlines (d # cs))"

fun iter_lines :: "pystr \<Rightarrow> pystr \<Rightarrow> pystr list" where
  "iter_lines cur [] = (if cur = [] then [] else [cur])"
| "iter_lines cur (c # cs) =
     (if c = LF then (cur @ [LF]) # iter_lines [] cs else iter_lines (cur @ [c]) cs)"

definition file_lines :: "pystr \<Rightarrow> pystr list" where
  "file_lines content = iter_lines [] (universal_newlines content)"

section \<open>Constants and state\<close>

definition CMD_SET :: pystr where "CMD_SET = str ''SET''"
definition CMD_GET :: pystr where "CMD_GET = str ''GET''"
definition CMD_EXIT :: pystr where "CMD_EXIT = str ''EXIT''"

text \<open>
  What the process does to the outside, in order: the calls on the handle of
  \<open>data.db\<close> that succeeded, the prompt of \<open>input\<close>, the lines printed on either
  stream and the errors logged (\<open>LogError\<close> holds the message without the text of the
  exception).
\<close>

datatype event =
    Opened
  | Wrote pystr
  | Flushed
  | Fsynced
  | Closed
  | Prompt pystr
  | Stdout pystr
  | Stderr pystr
  | LogError pystr

text \<open>
  \<open>store\<close> is the module's dictionary. \<open>data_file\<close> is the text of \<open>data.db\<close> as a
  reader sees it (\<open>None\<close>: the file does not exist), \<open>durable\<close> the text that has
  been forced to stable storage, \<open>buffer\<close> what has been written to the open handle
  and not flushed yet.
\<close>

record state =
  store :: "pystr \<rightharpoonup> pystr"
  data_file :: "pystr option"
  durable :: "pystr option"
  buffer :: pystr
  events :: "event list"

definition emit :: "event \<Rightarrow> state \<Rightarrow> state" where
  "emit e st = st\<lparr>events := events st @ [e]\<rparr>"

section \<open>load_store\<close>

text \<open>
  The body of the loop of \<open>load_store\<close> for one line of the file:
  \<^verbatim>\<open>
    line = line.strip()
    if line.startswith(f"{CMD_SET} "):
        parts = line.split(None, 2)
        if len(parts) == 3:
            key, value = parts[1], parts[2]
            store[key] = value
  \<close>
\<close>

definition load_line :: "(pystr \<rightharpoonup> pystr) \<Rightarrow> pystr \<Rightarrow> (pystr \<rightharpoonup> pystr)" where
  "load_line m raw =
     (let line = py_strip raw in
      if startswith line (CMD_SET @ [SP]) then
        (let parts = py_split 2 line in
         if length parts = 3 then m(parts ! 1 \<mapsto> parts ! 2) else m)
      else m)"

text \<open>
  The exceptions of the program: the \<open>OSError\<close> (with its alias \<open>IOError\<close>) that
  the handlers of \<open>load_store\<close> and \<open>save_set\<close> catch, and the ones nothing
  catches. A function that can let an exception out returns it beside the state it
  leaves: \<open>None\<close> is a normal return.
\<close>

datatype py_error = OSError | UnicodeDecodeError | UnicodeEncodeError | IndexError

text \<open>
  How reading the file goes. \<open>ReadFails n\<close> is a read that delivers \<open>n\<close> lines and
  then fails with an \<open>OSError\<close> (\<open>ReadFails 0\<close> covers a failing \<open>open\<close>): the
  handler logs the error and keeps what was loaded. \<open>DecodeFails n\<close> is a read that
  delivers \<open>n\<close> lines and then meets bytes that are not text in the file's encoding
  (a damaged line, or a record cut inside a character): the iteration raises
  \<open>UnicodeDecodeError\<close>, which is a \<open>ValueError\<close>; the handler does not catch it
  and it leaves \<open>load_store\<close>. \<open>data_file\<close> then holds the text of the bytes that
  do decode.
\<close>

datatype read_outcome = ReadOk | ReadFails nat | DecodeFails nat

definition load_store :: "read_outcome \<Rightarrow> state \<Rightarrow> py_error option \<times> state" where
  "load_store r st =
     (case data_file st of
        None \<Rightarrow> (None, st)
      | Some content \<Rightarrow>
          (case r of
             ReadOk \<Rightarrow>
               (None, st\<lparr>store := foldl load_line (store st) (file_lines content)\<rparr>)
           | ReadFails n \<Rightarrow>
               (None,
                emit (LogError (str ''Error loading data file''))
                  (st\<lparr>store := foldl load_line (store st) (take n (file_lines content))\<rparr>))
           | DecodeFails n \<Rightarrow>
               (Some UnicodeDecodeError,
                st\<lparr>store := foldl load_line (store st) (take n (file_lines content))\<rparr>)))"

section \<open>save_set\<close>

text \<open>
  The calls of the \<open>with\<close> block: \<open>open(DATA_FILE, 'a')\<close>, \<open>f.write\<close>,
  \<open>f.flush\<close>, \<open>os.fsync\<close> and the close that ends the block. \<open>Fails s n\<close> is a
  run in which call \<open>s\<close> raises an \<open>OSError\<close>; for a failing \<open>write\<close> or
  \<open>flush\<close>, \<open>n\<close> characters of the record still reach the file. \<open>EncodeFails\<close>
  is a run in which \<open>f.write\<close> cannot encode the record in the file's encoding and
  raises \<open>UnicodeEncodeError\<close>, a \<open>ValueError\<close> that the handler of \<open>save_set\<close>
  does not catch. The newline of the record is written as it is, as on a POSIX system.
\<close>

datatype io_step = AtOpen | AtWrite | AtFlush | AtFsync | AtClose

datatype io_outcome = Succeeds | Fails io_step nat | EncodeFails

fun fails_at :: "io_outcome \<Rightarrow> io_step \<Rightarrow> bool" where
  "fails_at (Fails s' n) s = (s' = s)"
| "fails_at io s = False"

fun reached :: "io_outcome \<Rightarrow> nat" where
  "reached (Fails s n) = n"
| "reached io = 0"

definition file_text :: "state \<Rightarrow> pystr" where
  "file_text st = (case data_file st of None \<Rightarrow> [] | Some c \<Rightarrow> c)"

text \<open>
  A statement either completes (\<open>Inr\<close>) or raises (\<open>Inl\<close>, with the exception), in
  the state it leaves. An exception raised inside the \<open>with\<close> block leaves it through
  the exit of the block, which closes the handle: \<open>with_exit\<close>.
\<close>

definition with_exit :: "state \<Rightarrow> state" where
  "with_exit st = emit Closed (st\<lparr>buffer := []\<rparr>)"

definition py_open :: "io_outcome \<Rightarrow> state \<Rightarrow> (py_error \<times> state) + state" where
  "py_open io st =
     (if fails_at io AtOpen then Inl (OSError, st)
      else Inr (emit Opened (st\<lparr>data_file := Some (file_text st), buffer := []\<rparr>)))"

definition f_write :: "io_outcome \<Rightarrow> pystr \<Rightarrow> state \<Rightarrow> (py_error \<times> state) + state" where
  "f_write io s st =
     (if io = EncodeFails then Inl (UnicodeEncodeError, with_exit st)
      else if fails_at io AtWrite
      then Inl (OSError, with_exit (st\<lparr>data_file := Some (file_text st @ take (reached io) s)\<rparr>))
      else Inr (emit (Wrote s) (st\<lparr>buffer := buffer st @ s\<rparr>)))"

definition f_flush :: "io_outcome \<Rightarrow> state \<Rightarrow> (py_error \<times> state) + state" where
  "f_flush io st =
     (if fails_at io AtFlush
      then Inl (OSError,
             with_exit (st\<lparr>data_file := Some (file_text st @ take (reached io) (buffer st))\<rparr>))
      else Inr (emit Flushed (st\<lparr>data_file := Some (file_text st @ buffer st), buffer := []\<rparr>)))"

definition os_fsync :: "io_outcome \<Rightarrow> state \<Rightarrow> (py_error \<times> state) + state" where
  "os_fsync io st =
     (if fails_at io AtFsync then Inl (OSError, with_exit st)
      else Inr (emit Fsynced (st\<lparr>durable := data_file st\<rparr>)))"

definition f_close :: "io_outcome \<Rightarrow> state \<Rightarrow> (py_error \<times> state) + state" where
  "f_close io st =
     (if fails_at io AtClose then Inl (OSError, st) else Inr (emit Closed st))"

definition store_assign :: "pystr \<Rightarrow> pystr \<Rightarrow> state \<Rightarrow> (py_error \<times> state) + state" where
  "store_assign key val st = Inr (st\<lparr>store := (store st)(key \<mapsto> val)\<rparr>)"

text \<open>
  The statements of a \<open>try\<close> body run in order until one raises; \<open>try_block\<close> gives
  the outcome of every statement that ran, so the last element is how the body ended and
  the elements before it are the states the call went through.
\<close>

fun try_block ::
  "(state \<Rightarrow> (py_error \<times> state) + state) list \<Rightarrow> state \<Rightarrow> ((py_error \<times> state) + state) list" where
  "try_block [] st = []"
| "try_block (stmt # rest) st =
     (case stmt st of
        Inl e \<Rightarrow> [Inl e]
      | Inr st' \<Rightarrow> Inr st' # try_block rest st')"

definition record_line :: "pystr \<Rightarrow> pystr \<Rightarrow> pystr" where
  "record_line key val = CMD_SET @ [SP] @ key @ [SP] @ val @ [LF]"

definition save_set_body ::
  "io_outcome \<Rightarrow> pystr \<Rightarrow> pystr \<Rightarrow> (state \<Rightarrow> (py_error \<times> state) + state) list" where
  "save_set_body io key val =
     [py_open io, f_write io (record_line key val), f_flush io, os_fsync io, f_close io,
      store_assign key val]"

text \<open>
  \<open>except (IOError, OSError)\<close>: an \<open>OSError\<close> is logged and \<open>save_set\<close> returns;
  any other exception leaves \<open>save_set\<close>.
\<close>

definition save_set :: "io_outcome \<Rightarrow> pystr \<Rightarrow> pystr \<Rightarrow> state \<Rightarrow> py_error option \<times> state" where
  "save_set io key val st =
     (case last (try_block (save_set_body io key val) st) of
        Inr st' \<Rightarrow> (None, st')
      | Inl (e, st') \<Rightarrow>
          (if e = OSError
           then (None, emit (LogError (str ''Error writing to data file'')) st')
           else (Some e, st')))"

section \<open>get_value and the command loop\<close>

definition get_value :: "pystr \<Rightarrow> state \<Rightarrow> pystr option" where
  "get_value key st = store st key"

datatype control = Continue | Break | Raise py_error

text \<open>
  One turn of the loop of \<open>main\<close> on the line that \<open>input\<close> returned; \<open>io\<close> is how
  the append goes if the line is a SET. The loop has no handler of its own: an exception
  that leaves \<open>save_set\<close>, or the \<open>IndexError\<close> of \<open>parts[0]\<close> on an empty list,
  ends it.
\<close>

definition loop_body :: "bool \<Rightarrow> io_outcome \<Rightarrow> pystr \<Rightarrow> state \<Rightarrow> control \<times> state" where
  "loop_body interactive io line st =
     (if line = [] then (Continue, st)
      else
        (let parts = py_split 2 (py_strip line) in
         if length parts = 2 \<and> parts ! 0 = CMD_GET then
           (Continue,
            emit (Stdout (case get_value (parts ! 1) st of Some v \<Rightarrow> v | None \<Rightarrow> [])) st)
         else if length parts \<ge> 3 \<and> parts ! 0 = CMD_SET then
           (case save_set io (parts ! 1) (parts ! 2) st of
              (Some e, st') \<Rightarrow> (Raise e, st')
            | (None, st') \<Rightarrow>
                (Continue, if interactive then emit (Stderr (str ''(OK)'')) st' else st'))
         else if parts = [] then (Raise IndexError, st)
         else if parts ! 0 = CMD_EXIT then (Break, st)
         else
           (Continue,
            if interactive
            then emit (Stderr (str ''Invalid command. Use SET, GET, or EXIT.'')) st
            else st)))"

text \<open>
  The loop over the lines of standard input, each paired with the outcome of its append.
  When the input is exhausted (or the user interrupts), \<open>input\<close> raises and the loop
  ends. The
  result says how the process ended: \<open>None\<close> for a normal exit, or the uncaught error.
\<close>

definition prompt :: "bool \<Rightarrow> state \<Rightarrow> state" where
  "prompt interactive st = (if interactive then emit (Prompt (str ''db> '')) st else st)"

fun main_loop :: "bool \<Rightarrow> (pystr \<times> io_outcome) list \<Rightarrow> state \<Rightarrow> py_error option \<times> state" where
  "main_loop interactive [] st =
     (None, emit (Stderr (LF # str ''Exiting...'')) (prompt interactive st))"
| "main_loop interactive ((line, io) # rest) st =
     (case loop_body interactive io line (prompt interactive st) of
        (Continue, st') \<Rightarrow> main_loop interactive rest st'
      | (Break, st') \<Rightarrow> (None, st')
      | (Raise e, st') \<Rightarrow> (Some e, st'))"

definition banner :: "bool \<Rightarrow> state \<Rightarrow> state" where
  "banner interactive st =
     (if interactive
      then emit (Stderr (str ''Commands: SET <key> <value>, GET <key>, EXIT''))
             (emit (Stderr (str ''--- Simple Key-Value Store ---'')) st)
      else st)"

definition main :: "bool \<Rightarrow> read_outcome \<Rightarrow> (pystr \<times> io_outcome) list \<Rightarrow> state \<Rightarrow> py_error option \<times> state" where
  "main interactive r inputs st =
     (case load_store r st of
        (Some e, st') \<Rightarrow> (Some e, st')
      | (None, st') \<Rightarrow> main_loop interactive inputs (banner interactive st'))"

text \<open>A process that starts on the disk \<open>st\<close> leaves: the dictionary is empty.\<close>

definition restart :: "state \<Rightarrow> state" where
  "restart st = \<lparr>store = Map.empty, data_file = data_file st, durable = durable st, buffer = [], events = []\<rparr>"

section \<open>Shapes of keys, values and files\<close>

text \<open>
  A token has no whitespace and is not empty; a trimmed string is not empty and neither
  starts nor ends with whitespace; a one-line string holds no line terminator.
\<close>

definition is_token :: "pystr \<Rightarrow> bool" where
  "is_token k \<longleftrightarrow> k \<noteq> [] \<and> \<not> list_ex py_isspace k"

definition is_trimmed :: "pystr \<Rightarrow> bool" where
  "is_trimmed v \<longleftrightarrow> v \<noteq> [] \<and> \<not> py_isspace (hd v) \<and> \<not> py_isspace (last v)"

definition one_line :: "pystr \<Rightarrow> bool" where
  "one_line s \<longleftrightarrow> \<not> list_ex (\<lambda>c. c = LF \<or> c = CR) s"

definition ends_with_newline :: "pystr \<Rightarrow> bool" where
  "ends_with_newline c \<longleftrightarrow> c = [] \<or> last c = LF \<or> last c = CR"

text \<open>
  The store agrees with the log: it is what the lines of \<open>data.db\<close> replay to from an
  empty store, and the log is empty or ends with a line terminator.
\<close>

definition consistent :: "state \<Rightarrow> bool" where
  "consistent st \<longleftrightarrow> ends_with_newline (file_text st) \<and>
     store st = foldl load_line Map.empty (file_lines (file_text st))"

text \<open>
  The record a line of the log stands for: the key and value that the loop body of
  \<open>load_store\<close> assigns for it, or \<open>None\<close> for a line the loop skips
  (lemma \<open>load_line_record_of\<close> below).
\<close>

definition record_of :: "pystr \<Rightarrow> (pystr \<times> pystr) option" where
  "record_of raw =
     (let line = py_strip raw; parts = py_split 2 line in
      if startswith line (CMD_SET @ [SP]) \<and> length parts = 3
      then Some (parts ! 1, parts ! 2) else None)"

text \<open>A process that has just started on a disk whose \<open>data.db\<close> is \<open>f\<close>.\<close>

definition example_state :: "pystr option \<Rightarrow> state" where
  "example_state f = \<lparr>store = Map.empty, data_file = f, durable = f, buffer = [], events = []\<rparr>"

text \<open>
  A disk on which an earlier run was cut off in the middle of a write: the log ends
  with a record that has no value and no newline.
\<close>

definition truncated_log :: state where
  "truncated_log = example_state (Some (str ''SET a''))"

text \<open>
  The states a call of \<open>save_set\<close> goes through, one after each statement of its
  \<open>try\<close> body that ran.
\<close>

definition save_set_states :: "io_outcome \<Rightarrow> pystr \<Rightarrow> pystr \<Rightarrow> state \<Rightarrow> state list" where
  "save_set_states io key val st = map (case_sum snd id) (try_block (save_set_body io key val) st)"


section \<open>Strings, lines and records\<close>

lemma CMD_SET_eq: "CMD_SET = [83, 69, 84]" by (simp add: CMD_SET_def str_def)
lemma CMD_GET_eq: "CMD_GET = [71, 69, 84]" by (simp add: CMD_GET_def str_def)

lemma dropWhile_keep: "xs \<noteq> [] \<Longrightarrow> \<not> P (hd xs) \<Longrightarrow> dropWhile P (xs @ ys) = xs @ ys"
  by (cases xs) auto

lemma strip_record:
  assumes "v \<noteq> []" "\<not> py_isspace (last v)"
  shows "py_strip (record_line k v) = CMD_SET @ [SP] @ k @ [SP] @ v"
proof -
  have a: "dropWhile py_isspace (record_line k v) = record_line k v"
    by (simp add: record_line_def CMD_SET_eq py_isspace_def)
  have b: "rev (record_line k v) = LF # (rev v @ rev (CMD_SET @ [SP] @ k @ [SP]))"
    by (simp add: record_line_def)
  have c: "dropWhile py_isspace (rev v @ rev (CMD_SET @ [SP] @ k @ [SP])) = rev v @ rev (CMD_SET @ [SP] @ k @ [SP])"
    using assms by (intro dropWhile_keep) (simp_all add: hd_rev)
  have d: "py_isspace LF" by (simp add: py_isspace_def LF_def)
  show ?thesis unfolding py_strip_def a b using c d by simp
qed

lemma split_record:
  assumes "is_token k" "v \<noteq> []" "\<not> py_isspace (hd v)"
  shows "py_split 2 (CMD_SET @ [SP] @ k @ [SP] @ v) = [CMD_SET, k, v]"
proof -
  have sp: "py_isspace SP" by (simp add: py_isspace_def SP_def)
  have k: "k \<noteq> []" "\<And>c. c \<in> set k \<Longrightarrow> \<not> py_isspace c"
    using assms(1) by (auto simp: is_token_def list_ex_iff)
  have hk: "\<not> py_isspace (hd k)" using k by (cases k) auto
  have s0: "py_split 0 (SP # v) = [v]"
    using assms(2,3) sp by (cases v) (auto)
  have d1: "dropWhile py_isspace (SP # k @ SP # v) = k @ SP # v"
    using sp dropWhile_keep[where P=py_isspace, OF k(1) hk] by simp
  have t1: "takeWhile (\<lambda>c. \<not> py_isspace c) (k @ SP # v) = k"
    using k(2) sp by (simp add: takeWhile_tail)
  have r1: "dropWhile (\<lambda>c. \<not> py_isspace c) (k @ SP # v) = SP # v"
    using k(2) sp by simp
  have s1: "py_split (Suc 0) (SP # k @ SP # v) = [k, v]"
    using d1 t1 r1 s0 k(1) by simp
  have s2: "py_split (Suc (Suc 0)) (CMD_SET @ SP # k @ SP # v) = CMD_SET # py_split (Suc 0) (SP # k @ SP # v)"
    using sp by (simp add: CMD_SET_eq py_isspace_def[of 83] py_isspace_def[of 69] py_isspace_def[of 84])
  show ?thesis using s1 s2 by (simp add: numeral_2_eq_2)
qed

lemma load_line_record:
  assumes "is_token k" "is_trimmed v"
  shows "load_line m (record_line k v) = m(k \<mapsto> v)"
proof -
  have "py_strip (record_line k v) = CMD_SET @ [SP] @ k @ [SP] @ v"
    using assms(2) by (simp add: strip_record is_trimmed_def)
  moreover have "py_split 2 (CMD_SET @ [SP] @ k @ [SP] @ v) = [CMD_SET, k, v]"
    using assms by (intro split_record) (simp_all add: is_trimmed_def)
  moreover have "startswith (CMD_SET @ [SP] @ k @ [SP] @ v) (CMD_SET @ [SP])"
    by (simp add: startswith_def)
  ultimately show ?thesis by (simp add: load_line_def)
qed

lemma universal_newlines_id: "CR \<notin> set s \<Longrightarrow> universal_newlines s = s"
  by (induction s rule: universal_newlines.induct) auto

lemma universal_newlines_append:
  "b \<noteq> [] \<Longrightarrow> hd b \<noteq> LF \<Longrightarrow> universal_newlines (a @ b) = universal_newlines a @ universal_newlines b"
proof (induction a rule: universal_newlines.induct)
  case 1
  then show ?case by simp
next
  case (2 c)
  then show ?case by (cases b) auto
next
  case (3 c d cs)
  then show ?case by auto
qed

lemma universal_newlines_Nil: "universal_newlines s = [] \<longleftrightarrow> s = []"
  by (induction s rule: universal_newlines.induct) auto

lemma universal_newlines_last:
  "ends_with_newline a \<Longrightarrow> universal_newlines a = [] \<or> last (universal_newlines a) = LF"
  by (induction a rule: universal_newlines.induct) (auto simp: ends_with_newline_def universal_newlines_Nil CR_def LF_def split: if_splits)

lemma iter_lines_append:
  "a \<noteq> [] \<Longrightarrow> last a = LF \<Longrightarrow> iter_lines cur (a @ b) = iter_lines cur a @ iter_lines [] b"
  by (induction a arbitrary: cur) (auto split: if_splits)

lemma iter_lines_single:
  "LF \<notin> set body \<Longrightarrow> iter_lines cur (body @ [LF]) = [cur @ body @ [LF]]"
  by (induction body arbitrary: cur) auto

lemma file_lines_append:
  assumes "ends_with_newline c" "one_line body" "body \<noteq> []" 
  shows "file_lines (c @ body @ [LF]) = file_lines c @ [body @ [LF]]"
proof -
  have nl: "LF \<notin> set body" "CR \<notin> set body"
    using assms(2) by (auto simp: one_line_def list_ex_iff)
  have h: "hd (body @ [LF]) \<noteq> LF" using nl assms(3) by (cases body) auto
  have "CR \<notin> set (body @ [LF])" using nl by (simp add: CR_def LF_def)
  then have u: "universal_newlines (c @ body @ [LF]) = universal_newlines c @ body @ [LF]"
    using h by (simp add: universal_newlines_append universal_newlines_id del: universal_newlines.simps)
  show ?thesis
  proof (cases "universal_newlines c = []")
    case True
    then show ?thesis using u nl iter_lines_single[of body "[]"] by (simp add: file_lines_def)
  next
    case False
    then have "last (universal_newlines c) = LF"
      using universal_newlines_last[OF assms(1)] by simp
    then show ?thesis
      using u False nl iter_lines_single[of body "[]"]
      by (simp add: file_lines_def iter_lines_append)
  qed
qed

lemma load_line_map_add: "load_line (m ++ n) l = m ++ load_line n l"
  by (simp add: load_line_def Let_def)

lemma foldl_load_line_map_add: "foldl load_line (m ++ n) ls = m ++ foldl load_line n ls"
  by (induction ls arbitrary: n) (simp_all add: load_line_map_add)

lemma foldl_load_line_overlay: "foldl load_line m ls = m ++ foldl load_line Map.empty ls"
  using foldl_load_line_map_add[of m Map.empty ls] by simp

lemma save_set_Succeeds:
  "save_set Succeeds key val st =
     (None,
      st\<lparr>store := (store st)(key \<mapsto> val),
         data_file := Some (file_text st @ record_line key val),
         durable := Some (file_text st @ record_line key val),
         buffer := [],
         events := events st @ [Opened, Wrote (record_line key val), Flushed, Fsynced, Closed]\<rparr>)"
  by (simp add: save_set_def save_set_body_def py_open_def f_write_def f_flush_def os_fsync_def
      f_close_def store_assign_def emit_def file_text_def)

lemma strip_last: "py_strip s \<noteq> [] \<Longrightarrow> \<not> py_isspace (last (py_strip s))"
proof -
  assume a: "py_strip s \<noteq> []"
  let ?d = "dropWhile py_isspace (rev (dropWhile py_isspace s))"
  have "?d \<noteq> []" using a by (simp add: py_strip_def)
  then have "\<not> py_isspace (hd ?d)" by (rule hd_dropWhile)
  moreover have "last (py_strip s) = hd ?d"
    using \<open>?d \<noteq> []\<close> by (simp add: py_strip_def last_rev)
  ultimately show ?thesis by simp
qed

lemma set_strip: "set (py_strip s) \<subseteq> set s"
  by (auto simp: py_strip_def dest!: set_dropWhileD)

lemma split2_parts:
  assumes "length (py_split 2 s) \<ge> 3"
  shows "\<exists>a k v. py_split 2 s = [a, k, v] \<and> is_token k \<and> v \<noteq> [] \<and> \<not> py_isspace (hd v) \<and> suffix v s"
proof -
  define r0 where "r0 = dropWhile py_isspace s"
  define r1 where "r1 = dropWhile py_isspace (dropWhile (\<lambda>c. \<not> py_isspace c) r0)"
  define v where "v = dropWhile py_isspace (dropWhile (\<lambda>c. \<not> py_isspace c) r1)"
  define k where "k = takeWhile (\<lambda>c. \<not> py_isspace c) r1"
  have eq: "py_split 2 s =
      (if r0 = [] then [] else takeWhile (\<lambda>c. \<not> py_isspace c) r0 #
        (if r1 = [] then [] else k # (if v = [] then [] else [v])))"
    unfolding r0_def r1_def v_def k_def numeral_2_eq_2 py_split.simps Let_def by (rule refl)
  from assms eq have ne: "r0 \<noteq> []" "r1 \<noteq> []" "v \<noteq> []"
    by (auto split: if_splits)
  have p: "py_split 2 s = [takeWhile (\<lambda>c. \<not> py_isspace c) r0, k, v]"
    using eq ne by simp
  have "\<not> py_isspace (hd r1)" using ne(2) unfolding r1_def by (rule hd_dropWhile)
  then have "k \<noteq> []" using ne(2) by (simp add: k_def takeWhile_eq_Nil_iff)
  moreover have "\<forall>c\<in>set k. \<not> py_isspace c" by (auto simp: k_def dest: set_takeWhileD)
  ultimately have tk: "is_token k" by (simp add: is_token_def list_ex_iff)
  have hv: "\<not> py_isspace (hd v)" using ne(3) unfolding v_def by (rule hd_dropWhile)
  have "suffix v r1" unfolding v_def by (meson suffix_dropWhile suffix_order.trans)
  moreover have "suffix r1 r0" unfolding r1_def by (meson suffix_dropWhile suffix_order.trans)
  moreover have "suffix r0 s" unfolding r0_def by (rule suffix_dropWhile)
  ultimately have "suffix v s" by (meson suffix_order.trans)
  with p tk ne(3) hv show ?thesis by blast
qed

lemma dispatch_parts:
  assumes "length (py_split 2 (py_strip line)) \<ge> 3"
  shows "is_token (py_split 2 (py_strip line) ! 1) \<and> is_trimmed (py_split 2 (py_strip line) ! 2) \<and>
         set (py_split 2 (py_strip line) ! 2) \<subseteq> set line"
proof -
  obtain a k v where p: "py_split 2 (py_strip line) = [a, k, v]" "is_token k" "v \<noteq> []"
     "\<not> py_isspace (hd v)" "suffix v (py_strip line)"
    using split2_parts[OF assms] by blast
  from p(5) obtain pre where pre: "py_strip line = pre @ v" by (auto simp: suffix_def)
  then have "last (py_strip line) = last v" using p(3) by simp
  moreover have "py_strip line \<noteq> []" using pre p(3) by simp
  ultimately have "\<not> py_isspace (last v)" using strip_last[of line] by simp
  moreover have "set v \<subseteq> set line" using pre set_strip[of line] by auto
  ultimately show ?thesis using p by (simp add: is_trimmed_def)
qed

lemma isspace_LF: "py_isspace LF" by (simp add: py_isspace_def LF_def)
lemma isspace_CR: "py_isspace CR" by (simp add: py_isspace_def CR_def)
lemma isspace_SP: "py_isspace SP" by (simp add: py_isspace_def SP_def)

lemma token_one_line: "is_token k \<Longrightarrow> one_line k"
  using isspace_LF isspace_CR by (auto simp: is_token_def one_line_def list_ex_iff)

lemma record_append:
  assumes "ends_with_newline c" "is_token k" "is_trimmed v" "one_line v"
  shows "file_lines (c @ record_line k v) = file_lines c @ [record_line k v]"
proof -
  have "one_line (CMD_SET @ [SP] @ k @ [SP] @ v)"
    using token_one_line[OF assms(2)] assms(4)
    by (auto simp: one_line_def list_ex_iff CMD_SET_eq SP_def LF_def CR_def)
  moreover have "CMD_SET @ [SP] @ k @ [SP] @ v \<noteq> []" by simp
  ultimately have "file_lines (c @ (CMD_SET @ [SP] @ k @ [SP] @ v) @ [LF]) =
      file_lines c @ [(CMD_SET @ [SP] @ k @ [SP] @ v) @ [LF]]"
    using assms(1) by (rule file_lines_append[rotated])
  then show ?thesis by (simp add: record_line_def)
qed

lemma save_set_consistent:
  assumes "consistent st" "is_token k" "is_trimmed v" "one_line v"
  shows "consistent (snd (save_set Succeeds k v st))"
proof -
  let ?st' = "snd (save_set Succeeds k v st)"
  have ft: "file_text ?st' = file_text st @ record_line k v"
    by (simp add: save_set_Succeeds file_text_def)
  have st: "store ?st' = (store st)(k \<mapsto> v)" by (simp add: save_set_Succeeds)
  have "ends_with_newline (file_text ?st')"
    unfolding ft by (simp add: ends_with_newline_def record_line_def)
  moreover have "store ?st' = foldl load_line Map.empty (file_lines (file_text ?st'))"
    using assms unfolding ft st
    by (simp add: record_append consistent_def load_line_record)
  ultimately show ?thesis by (simp add: consistent_def)
qed

lemma consistent_emit: "consistent (emit e st) = consistent st"
  by (simp add: consistent_def emit_def file_text_def)

lemma consistent_prompt: "consistent (prompt i st) = consistent st"
  by (simp add: prompt_def consistent_emit)

lemma consistent_banner: "consistent (banner i st) = consistent st"
  by (simp add: banner_def consistent_emit)

lemma loop_body_consistent:
  assumes "consistent st" "one_line line"
  shows "consistent (snd (loop_body interactive Succeeds line st))"
proof -
  let ?parts = "py_split 2 (py_strip line)"
  have "consistent (snd (save_set Succeeds (?parts ! 1) (?parts ! 2) st))" if "length ?parts \<ge> 3"
  proof -
    from dispatch_parts[OF that] have t: "is_token (?parts ! 1)" "is_trimmed (?parts ! 2)"
      "set (?parts ! 2) \<subseteq> set line" by auto
    from t(3) assms(2) have "one_line (?parts ! 2)" by (auto simp: one_line_def list_ex_iff)
    with t assms(1) show ?thesis by (simp add: save_set_consistent)
  qed
  moreover have "fst (save_set Succeeds k v st) = None" for k v
    by (simp add: save_set_Succeeds)
  ultimately show ?thesis using assms(1)
    by (auto simp: loop_body_def Let_def consistent_emit split: prod.splits option.splits)
qed

lemma main_loop_consistent:
  "consistent st \<Longrightarrow> \<forall>(line, io) \<in> set inputs. io = Succeeds \<and> one_line line \<Longrightarrow>
   consistent (snd (main_loop interactive inputs st))"
proof (induction inputs arbitrary: st)
  case Nil
  then show ?case by (simp add: consistent_emit consistent_prompt)
next
  case (Cons a inputs)
  obtain line io where a: "a = (line, io)" by (cases a)
  with Cons.prems have io: "io = Succeeds" "one_line line" by auto
  obtain c st' where lb: "loop_body interactive Succeeds line (prompt interactive st) = (c, st')"
    by (cases "loop_body interactive Succeeds line (prompt interactive st)")
  have cs: "consistent st'"
    using loop_body_consistent[of "prompt interactive st" line interactive] Cons.prems(1) io(2) lb
    by (simp add: consistent_prompt)
  show ?case
  proof (cases c)
    case Continue
    then show ?thesis using a io lb Cons.IH[OF cs] Cons.prems(2) by simp
  next
    case Break
    then show ?thesis using a io lb cs by simp
  next
    case (Raise e)
    then show ?thesis using a io lb cs by simp
  qed
qed

lemma replay_restart:
  "store (snd (load_store ReadOk (restart st))) = foldl load_line Map.empty (file_lines (file_text st))"
  by (simp add: load_store_def restart_def file_text_def file_lines_def split: option.splits)

lemma load_store_consistent:
  assumes "store st = Map.empty" "ends_with_newline (file_text st)"
  shows "consistent (snd (load_store ReadOk st))"
  using assms
  by (auto simp: consistent_def load_store_def file_text_def file_lines_def split: option.splits)

lemma load_line_record_of:
  "load_line m raw = (case record_of raw of None \<Rightarrow> m | Some (k, v) \<Rightarrow> m(k \<mapsto> v))"
  by (simp add: load_line_def record_of_def Let_def)

lemma foldl_load_line_other:
  "\<forall>l \<in> set ls. \<forall>v. record_of l \<noteq> Some (k, v) \<Longrightarrow> foldl load_line m ls k = m k"
proof (induction ls arbitrary: m)
  case Nil
  then show ?case by simp
next
  case (Cons l ls)
  have "load_line m l k = m k"
    using Cons.prems by (auto simp: load_line_record_of split: option.splits)
  then show ?case using Cons by simp
qed

lemma foldl_load_line_last:
  assumes "record_of l = Some (k, v)" "\<forall>l' \<in> set after. \<forall>v'. record_of l' \<noteq> Some (k, v')"
  shows "foldl load_line m (before @ l # after) k = Some v"
proof -
  have "foldl load_line m (before @ l # after) k = load_line (foldl load_line m before) l k"
    using foldl_load_line_other[OF assms(2)] by simp
  then show ?thesis using assms(1) by (simp add: load_line_record_of)
qed

lemma foldl_load_line_twice:
  "foldl load_line (foldl load_line m ls) ls = foldl load_line m ls"
proof -
  let ?R = "foldl load_line Map.empty ls"
  have "foldl load_line (foldl load_line m ls) ls = (m ++ ?R) ++ ?R"
    using foldl_load_line_overlay[of "foldl load_line m ls" ls] foldl_load_line_overlay[of m ls]
    by simp
  also have "\<dots> = m ++ ?R" by (rule ext) (simp add: map_add_def split: option.splits)
  finally show ?thesis using foldl_load_line_overlay[of m ls] by simp
qed

lemma load_store_store:
  "store (snd (load_store r st)) =
     (case data_file st of None \<Rightarrow> store st
      | Some c \<Rightarrow> foldl load_line (store st)
          (case r of ReadOk \<Rightarrow> file_lines c | ReadFails n \<Rightarrow> take n (file_lines c)
           | DecodeFails n \<Rightarrow> take n (file_lines c)))"
  by (simp add: load_store_def emit_def split: option.splits read_outcome.splits)

lemma load_store_data_file: "data_file (snd (load_store r st)) = data_file st"
  by (simp add: load_store_def emit_def split: option.splits read_outcome.splits)

lemma str_simps: "str [] = []" "str (c # cs) = of_char c # str cs"
  by (simp_all add: str_def)

lemma token_str_a: "is_token (str ''a'')" by (simp add: is_token_def str_simps py_isspace_def)
lemma token_str_b: "is_token (str ''b'')" by (simp add: is_token_def str_simps py_isspace_def)
lemma trimmed_str_1: "is_trimmed (str ''1'')" by (simp add: is_trimmed_def str_simps py_isspace_def)
lemma trimmed_str_2: "is_trimmed (str ''2'')" by (simp add: is_trimmed_def str_simps py_isspace_def)

lemma record_of_record_line: "is_token k \<Longrightarrow> is_trimmed v \<Longrightarrow> record_of (record_line k v) = Some (k, v)"
proof -
  assume a: "is_token k" "is_trimmed v"
  have s: "py_strip (record_line k v) = CMD_SET @ [SP] @ k @ [SP] @ v"
    using a(2) by (simp add: strip_record is_trimmed_def)
  have p: "py_split 2 (CMD_SET @ [SP] @ k @ [SP] @ v) = [CMD_SET, k, v]"
    using a by (intro split_record) (simp_all add: is_trimmed_def)
  have w: "startswith (CMD_SET @ [SP] @ k @ [SP] @ v) (CMD_SET @ [SP])"
    by (simp add: startswith_def)
  show ?thesis unfolding record_of_def s Let_def p using w by simp
qed

lemma record_of_a1: "record_of (str ''SET a 1'' @ [LF]) = Some (str ''a'', str ''1'')"
  using record_of_record_line[OF token_str_a trimmed_str_1]
  by (simp add: record_line_def CMD_SET_eq SP_def str_simps)

lemma record_of_a2: "record_of (str ''SET a 2'' @ [LF]) = Some (str ''a'', str ''2'')"
  using record_of_record_line[OF token_str_a trimmed_str_2]
  by (simp add: record_line_def CMD_SET_eq SP_def str_simps)

lemma record_of_b2: "record_of (str ''SET b 2'' @ [LF]) = Some (str ''b'', str ''2'')"
  using record_of_record_line[OF token_str_b trimmed_str_2]
  by (simp add: record_line_def CMD_SET_eq SP_def str_simps)

lemma record_of_garbage: "record_of (str ''GARBAGE'' @ [LF]) = None"
  by (simp add: record_of_def py_strip_def startswith_def CMD_SET_eq SP_def str_simps LF_def
      py_isspace_def)

lemma file_lines_a1_a2:
  "file_lines (str ''SET a 1'' @ [LF] @ str ''SET a 2'' @ [LF]) =
     [str ''SET a 1'' @ [LF], str ''SET a 2'' @ [LF]]"
  by (simp add: file_lines_def str_simps LF_def CR_def)

lemma file_lines_garbage:
  "file_lines (str ''SET a 1'' @ [LF] @ str ''GARBAGE'' @ [LF] @ str ''SET b 2'' @ [LF]) =
     [str ''SET a 1'' @ [LF], str ''GARBAGE'' @ [LF], str ''SET b 2'' @ [LF]]"
  by (simp add: file_lines_def str_simps LF_def CR_def)

section \<open>Replay\<close>

text \<open>
  Claim C5. Replay applies the valid records in file order, so the last record for a key
  wins: when the lines of the log are \<open>before @ l # after\<close>, \<open>l\<close> is a valid
  record for \<open>k\<close> with value \<open>v\<close> and no later line is a valid record for \<open>k\<close>,
  then \<open>get_value k\<close> after \<open>load_store\<close> is \<open>v\<close>, whatever the store held
  before. In particular replaying \<open>SET a 1\n SET a 2\n\<close> and reading \<open>a\<close> gives
  \<open>2\<close>.
\<close>
theorem replay_last_write_wins:
  "(data_file st = Some content \<and> file_lines content = before @ l # after \<and>
    record_of l = Some (k, v) \<and> (\<forall>l' \<in> set after. \<forall>v'. record_of l' \<noteq> Some (k, v'))
      \<longrightarrow> get_value k (snd (load_store ReadOk st)) = Some v)
   \<and> get_value (str ''a'')
        (snd (load_store ReadOk (example_state (Some (str ''SET a 1'' @ [LF] @ str ''SET a 2'' @ [LF])))))
      = Some (str ''2'')"
proof -
  have gen: "get_value k' (snd (load_store ReadOk st')) = Some v'"
    if "data_file st' = Some content'" "file_lines content' = before' @ l' # after'"
       "record_of l' = Some (k', v')" "\<forall>x \<in> set after'. \<forall>y. record_of x \<noteq> Some (k', y)"
    for st' content' before' l' after' k' v'
    using that foldl_load_line_last[OF that(3,4), of "store st'" before']
    by (simp add: get_value_def load_store_store)
  have "get_value (str ''a'')
        (snd (load_store ReadOk (example_state (Some (str ''SET a 1'' @ [LF] @ str ''SET a 2'' @ [LF])))))
      = Some (str ''2'')"
    using file_lines_a1_a2 record_of_a2
    by (intro gen[where before' = "[str ''SET a 1'' @ [LF]]" and after' = "[]"
          and l' = "str ''SET a 2'' @ [LF]"])
       (simp_all add: example_state_def)
  with gen show ?thesis by blast
qed

lemma file_lines_a1_b2:
  "file_lines (str ''SET a 1'' @ [LF] @ str ''SET b 2'' @ [LF]) =
     [str ''SET a 1'' @ [LF], str ''SET b 2'' @ [LF]]"
  by (simp add: file_lines_def str_simps LF_def CR_def)

lemma str_a_neq_b: "str ''b'' \<noteq> str ''a''" by (simp add: str_simps)

theorem replay_last_write_wins_witness:
  "file_lines (str ''SET a 1'' @ [LF] @ str ''SET b 2'' @ [LF])
     = [] @ (str ''SET a 1'' @ [LF]) # [str ''SET b 2'' @ [LF]]
   \<and> record_of (str ''SET a 1'' @ [LF]) = Some (str ''a'', str ''1'')
   \<and> record_of (str ''SET b 2'' @ [LF]) = Some (str ''b'', str ''2'')
   \<and> get_value (str ''a'')
       (snd (load_store ReadOk (example_state (Some (str ''SET a 1'' @ [LF] @ str ''SET b 2'' @ [LF])))))
     = Some (str ''1'')"
proof -
  let ?c = "str ''SET a 1'' @ [LF] @ str ''SET b 2'' @ [LF]"
  have d: "data_file (example_state (Some ?c)) = Some ?c" by (simp add: example_state_def)
  have f: "file_lines ?c = [] @ (str ''SET a 1'' @ [LF]) # [str ''SET b 2'' @ [LF]]"
    using file_lines_a1_b2 by simp
  have n: "\<forall>l' \<in> set [str ''SET b 2'' @ [LF]]. \<forall>v'. record_of l' \<noteq> Some (str ''a'', v')"
    using record_of_b2 str_a_neq_b by simp
  have "get_value (str ''a'') (snd (load_store ReadOk (example_state (Some ?c)))) = Some (str ''1'')"
    using replay_last_write_wins[of "example_state (Some ?c)" ?c "[]" "str ''SET a 1'' @ [LF]"
        "[str ''SET b 2'' @ [LF]]" "str ''a''" "str ''1''"] d f n record_of_a1
    by blast
  with f record_of_a1 record_of_b2 show ?thesis by blast
qed

text \<open>
  A line of text that, once stripped as replay strips it, does not start with
  \<open>SET\<close> and a space, or does not split into exactly three tokens, is skipped: the
  store is left as it is, nothing is logged and replay goes on with the lines after it.
  The log \<open>SET a 1\n GARBAGE\n SET b 2\n\<close> replays from an empty store to
  \<open>{a: 1, b: 2}\<close>, with no other change to the state.
\<close>

lemma malformed_text_line_skipped:
  "(\<not> startswith (py_strip l) (CMD_SET @ [SP]) \<or> length (py_split 2 (py_strip l)) \<noteq> 3
      \<longrightarrow> load_line m l = m \<and>
          (data_file st = Some content \<and> file_lines content = before @ l # after
             \<longrightarrow> load_store ReadOk st
                 = (None, st\<lparr>store := foldl load_line (store st) (before @ after)\<rparr>)))
   \<and> load_store ReadOk
        (example_state
           (Some (str ''SET a 1'' @ [LF] @ str ''GARBAGE'' @ [LF] @ str ''SET b 2'' @ [LF])))
      = (None,
         (example_state
           (Some (str ''SET a 1'' @ [LF] @ str ''GARBAGE'' @ [LF] @ str ''SET b 2'' @ [LF])))
          \<lparr>store := [str ''a'' \<mapsto> str ''1'', str ''b'' \<mapsto> str ''2'']\<rparr>)"
proof -
  have skip: "load_line m' l' = m'"
    if "\<not> startswith (py_strip l') (CMD_SET @ [SP]) \<or> length (py_split 2 (py_strip l')) \<noteq> 3"
    for m' l'
    using that by (auto simp: load_line_def Let_def)
  have whole: "load_store ReadOk st
      = (None, st\<lparr>store := foldl load_line (store st) (before @ after)\<rparr>)"
    if "\<not> startswith (py_strip l) (CMD_SET @ [SP]) \<or> length (py_split 2 (py_strip l)) \<noteq> 3"
       "data_file st = Some content" "file_lines content = before @ l # after"
    using that skip[OF that(1)] by (simp add: load_store_def)
  let ?c = "str ''SET a 1'' @ [LF] @ str ''GARBAGE'' @ [LF] @ str ''SET b 2'' @ [LF]"
  have "foldl load_line Map.empty (file_lines ?c) = [str ''a'' \<mapsto> str ''1'', str ''b'' \<mapsto> str ''2'']"
    using file_lines_garbage record_of_a1 record_of_garbage record_of_b2
    by (simp add: load_line_record_of)
  then have "load_store ReadOk (example_state (Some ?c))
      = (None, (example_state (Some ?c))\<lparr>store := [str ''a'' \<mapsto> str ''1'', str ''b'' \<mapsto> str ''2'']\<rparr>)"
    by (simp add: load_store_def example_state_def)
  with skip whole show ?thesis by blast
qed

text \<open>
  Claim C6, where the code breaks it. The log holds the bytes of
  \<open>SET a 1\n GARBAGE\n SET b 2\n\<close> with one byte that is not text in the file's
  encoding at the end of the second line (a damaged line, as a write cut inside a
  character leaves one). The file is small, so the first read decodes all of it and
  raises \<open>UnicodeDecodeError\<close> before a line is delivered. The handler of
  \<open>load_store\<close> catches \<open>(IOError, OSError)\<close> only: the error leaves
  \<open>load_store\<close> and \<open>main\<close>, no record of the log is replayed and no command is read.
\<close>

theorem replay_aborts_on_undecodable_line:
  "load_store (DecodeFails 0)
     (example_state (Some (str ''SET a 1'' @ [LF] @ str ''GARBAGE'' @ [LF] @ str ''SET b 2'' @ [LF])))
   = (Some UnicodeDecodeError,
      example_state (Some (str ''SET a 1'' @ [LF] @ str ''GARBAGE'' @ [LF] @ str ''SET b 2'' @ [LF])))
   \<and> main interactive (DecodeFails 0) inputs
     (example_state (Some (str ''SET a 1'' @ [LF] @ str ''GARBAGE'' @ [LF] @ str ''SET b 2'' @ [LF])))
   = (Some UnicodeDecodeError,
      example_state (Some (str ''SET a 1'' @ [LF] @ str ''GARBAGE'' @ [LF] @ str ''SET b 2'' @ [LF])))
   \<and> get_value (str ''a'')
       (snd (main interactive (DecodeFails 0) inputs
         (example_state
            (Some (str ''SET a 1'' @ [LF] @ str ''GARBAGE'' @ [LF] @ str ''SET b 2'' @ [LF])))))
     = None"
  by (simp add: main_def load_store_def example_state_def get_value_def)

text \<open>
  The same for any log and any number of lines delivered before the bytes that do not
  decode: \<open>load_store\<close> lets the error out, and \<open>main\<close> ends with it.
\<close>

lemma undecodable_log_ends_main:
  "data_file st = Some content \<Longrightarrow>
     fst (load_store (DecodeFails n) st) = Some UnicodeDecodeError
     \<and> fst (main interactive (DecodeFails n) inputs st) = Some UnicodeDecodeError"
  by (simp add: main_def load_store_def)

text \<open>
  Claim C7. When \<open>data.db\<close> does not exist, \<open>load_store\<close> returns at once: it
  raises nothing and the state is unchanged, whatever reading would have done; for a
  process that has just started the store is empty and nothing has been logged.
\<close>

theorem missing_file_startup:
  "data_file st = None \<longrightarrow>
     load_store r st = (None, st) \<and> store (snd (load_store r (restart st))) = Map.empty
     \<and> events (snd (load_store r (restart st))) = []"
  by (simp add: load_store_def restart_def)

theorem missing_file_startup_witness:
  "data_file (example_state None) = None
   \<and> load_store (ReadFails 0) (example_state None) = (None, example_state None)
   \<and> store (snd (load_store (ReadFails 0) (restart (example_state None)))) = Map.empty"
  using missing_file_startup[of "example_state None" "ReadFails 0"]
  by (simp add: example_state_def)

text \<open>
  Claim C8. Replay is idempotent: running \<open>load_store\<close> twice in a row, with no write
  in between, leaves the same store as running it once (for a read that stops after the
  same number of lines too), and the same result when the reads succeed.
\<close>

theorem replay_idempotent:
  "store (snd (load_store r (snd (load_store r st)))) = store (snd (load_store r st))
   \<and> load_store ReadOk (snd (load_store ReadOk st)) = load_store ReadOk st"
proof -
  have a: "store (snd (load_store r (snd (load_store r st)))) = store (snd (load_store r st))"
    by (simp add: load_store_store[of r "snd (load_store r st)"] load_store_data_file)
       (simp add: load_store_store foldl_load_line_twice split: option.splits)
  have "load_store ReadOk (snd (load_store ReadOk st)) = load_store ReadOk st"
    by (simp add: load_store_def foldl_load_line_twice split: option.splits)
  with a show ?thesis by simp
qed

lemma foldl_load_line_map_of:
  "foldl load_line m ls = m ++ map_of (rev (List.map_filter record_of ls))"
proof (induction ls rule: rev_induct)
  case Nil
  then show ?case by (simp add: List.map_filter_def)
next
  case (snoc l ls)
  let ?M = "map_of (rev (List.map_filter record_of ls))"
  have step: "foldl load_line m (ls @ [l]) = load_line (m ++ ?M) l"
    using snoc.IH by simp
  show ?case
  proof (cases "record_of l")
    case None
    have "load_line (m ++ ?M) l = m ++ ?M" using None by (simp add: load_line_record_of)
    moreover have "List.map_filter record_of (ls @ [l]) = List.map_filter record_of ls"
      using None by (simp add: List.map_filter_def)
    ultimately show ?thesis using step by simp
  next
    case (Some kv)
    obtain k v where kv: "kv = (k, v)" by (cases kv)
    have "load_line (m ++ ?M) l = (m ++ ?M)(k \<mapsto> v)"
      using Some kv by (simp add: load_line_record_of)
    then have e1: "foldl load_line m (ls @ [l]) = (m ++ ?M)(k \<mapsto> v)"
      using step by simp
    have "List.map_filter record_of (ls @ [l]) = List.map_filter record_of ls @ [(k, v)]"
      using Some kv by (simp add: List.map_filter_def)
    then have e2: "map_of (rev (List.map_filter record_of (ls @ [l]))) = ?M(k \<mapsto> v)"
      by simp
    show ?thesis unfolding e1 e2 by (rule map_add_upd[symmetric])
  qed
qed

text \<open>
  Claim C10. \<open>load_store\<close> merges into the store it finds. The result of a replay that
  reads the log is the prior store overlaid with the last-write-wins mapping of the log's
  valid records (the records in reverse order, looked up from the front), which is what
  the lines replay to from an empty store; a read that stops after \<open>n\<close> lines overlays
  the mapping of those lines. No key is removed, and a key that no valid record of the log
  writes keeps its prior value.
\<close>

theorem replay_merges_into_store:
  "store (snd (load_store ReadOk st))
     = store st ++ map_of (rev (List.map_filter record_of (file_lines (file_text st))))
   \<and> store (snd (load_store ReadOk st))
       = store st ++ foldl load_line Map.empty (file_lines (file_text st))
   \<and> store (snd (load_store (ReadFails n) st))
       = store st ++ map_of (rev (List.map_filter record_of (take n (file_lines (file_text st)))))
   \<and> store (snd (load_store r st))
       = store st ++ store (snd (load_store r (st\<lparr>store := Map.empty\<rparr>)))
   \<and> dom (store st) \<subseteq> dom (store (snd (load_store r st)))
   \<and> ((\<forall>l \<in> set (file_lines (file_text st)). \<forall>v. record_of l \<noteq> Some (k, v))
        \<longrightarrow> store (snd (load_store r st)) k = store st k)"
proof -
  have fl: "file_lines [] = []" by (simp add: file_lines_def)
  have a1: "store (snd (load_store ReadOk st))
      = store st ++ map_of (rev (List.map_filter record_of (file_lines (file_text st))))"
    using foldl_load_line_map_of[of "store st"] fl
    by (simp add: load_store_store file_text_def List.map_filter_def split: option.splits)
  have a2: "store (snd (load_store ReadOk st))
      = store st ++ foldl load_line Map.empty (file_lines (file_text st))"
    using foldl_load_line_overlay[of "store st"] fl
    by (simp add: load_store_store file_text_def split: option.splits)
  have a3: "store (snd (load_store (ReadFails n) st))
      = store st ++ map_of (rev (List.map_filter record_of (take n (file_lines (file_text st)))))"
    using foldl_load_line_map_of[of "store st"] fl
    by (simp add: load_store_store file_text_def List.map_filter_def split: option.splits)
  have a: "store (snd (load_store r st))
      = store st ++ store (snd (load_store r (st\<lparr>store := Map.empty\<rparr>)))"
    using foldl_load_line_overlay[of "store st"]
    by (simp add: load_store_store split: option.splits)
  then have b: "dom (store st) \<subseteq> dom (store (snd (load_store r st)))" by auto
  have c: "store (snd (load_store r st)) k = store st k"
    if h: "\<forall>l \<in> set (file_lines (file_text st)). \<forall>v. record_of l \<noteq> Some (k, v)"
  proof (cases "data_file st")
    case None
    then show ?thesis by (simp add: load_store_store)
  next
    case (Some c)
    then have all: "\<forall>l \<in> set (file_lines c). \<forall>v. record_of l \<noteq> Some (k, v)"
      using h by (simp add: file_text_def)
    then have "\<forall>l \<in> set (take n (file_lines c)). \<forall>v. record_of l \<noteq> Some (k, v)" for n
      by (meson in_set_takeD)
    with all Some show ?thesis
      by (cases r) (simp_all add: load_store_store foldl_load_line_other)
  qed
  from a1 a2 a3 a b c show ?thesis by blast
qed

theorem replay_merges_into_store_witness:
  "file_lines (file_text ((example_state (Some (str ''SET a 1'' @ [LF])))
          \<lparr>store := [str ''b'' \<mapsto> str ''2'']\<rparr>)) = [str ''SET a 1'' @ [LF]]
   \<and> record_of (str ''SET a 1'' @ [LF]) = Some (str ''a'', str ''1'')
   \<and> store (snd (load_store ReadOk ((example_state (Some (str ''SET a 1'' @ [LF])))
          \<lparr>store := [str ''b'' \<mapsto> str ''2'']\<rparr>))) (str ''a'') = Some (str ''1'')
   \<and> store (snd (load_store ReadOk ((example_state (Some (str ''SET a 1'' @ [LF])))
          \<lparr>store := [str ''b'' \<mapsto> str ''2'']\<rparr>))) (str ''b'') = Some (str ''2'')
   \<and> store (snd (load_store ReadOk ((example_state (Some (str ''SET a 1'' @ [LF])))
          \<lparr>store := [str ''b'' \<mapsto> str ''2'']\<rparr>)))
       = [str ''b'' \<mapsto> str ''2'', str ''a'' \<mapsto> str ''1'']"
proof -
  let ?st = "(example_state (Some (str ''SET a 1'' @ [LF])))\<lparr>store := [str ''b'' \<mapsto> str ''2'']\<rparr>"
  have fl: "file_lines (file_text ?st) = [str ''SET a 1'' @ [LF]]"
    by (simp add: file_text_def example_state_def file_lines_def str_simps LF_def CR_def)
  have h: "\<forall>l \<in> set (file_lines (file_text ?st)). \<forall>v. record_of l \<noteq> Some (str ''b'', v)"
    unfolding fl using record_of_a1 str_a_neq_b by auto
  have b: "store (snd (load_store ReadOk ?st)) (str ''b'') = store ?st (str ''b'')"
    using replay_merges_into_store[of ?st 0 ReadOk "str ''b''"] h by blast
  have "store (snd (load_store ReadOk ?st))
      = store ?st ++ map_of (rev (List.map_filter record_of (file_lines (file_text ?st))))"
    using replay_merges_into_store[of ?st 0 ReadOk "str ''b''"] by blast
  then have all: "store (snd (load_store ReadOk ?st)) = [str ''b'' \<mapsto> str ''2'', str ''a'' \<mapsto> str ''1'']"
    unfolding fl using record_of_a1 by (simp add: List.map_filter_def example_state_def)
  then have a: "store (snd (load_store ReadOk ?st)) (str ''a'') = Some (str ''1'')" by simp
  show ?thesis using fl record_of_a1 a b all by (simp add: example_state_def)
qed

section \<open>Runs of the command loop\<close>

lemma main_store_file:
  "store (banner i st) = store st" "data_file (banner i st) = data_file st"
  "store (prompt i st) = store st" "data_file (prompt i st) = data_file st"
  "store (emit e st) = store st" "data_file (emit e st) = data_file st"
  by (simp_all add: banner_def prompt_def emit_def)

lemma main_ReadOk:
  "main i ReadOk inputs st = main_loop i inputs (banner i (snd (load_store ReadOk st)))"
  by (simp add: main_def load_store_def split: option.splits)

lemma split_set_b_2: "py_split 2 (py_strip (str ''SET b 2'')) = [CMD_SET, str ''b'', str ''2'']"
  by (simp add: py_strip_def str_simps py_isspace_def numeral_2_eq_2 CMD_SET_eq)

lemma loop_body_set_b_2:
  "loop_body i Succeeds (str ''SET b 2'') st =
     (Continue, (if i then emit (Stderr (str ''(OK)'')) else id) (snd (save_set Succeeds (str ''b'') (str ''2'') st)))"
  unfolding loop_body_def Let_def split_set_b_2
  by (simp add: CMD_SET_eq CMD_GET_eq str_simps save_set_Succeeds)

lemma record_of_truncated:
  "record_of (str ''SET a'' @ record_line (str ''b'') (str ''2'')) = Some (str ''aSET'', str ''b 2'')"
  by (simp add: record_of_def py_strip_def startswith_def CMD_SET_eq SP_def str_simps LF_def
      py_isspace_def numeral_2_eq_2 numeral_3_eq_3 record_line_def)

lemma file_lines_truncated:
  "file_lines (str ''SET a'' @ record_line (str ''b'') (str ''2'')) =
     [str ''SET a'' @ record_line (str ''b'') (str ''2'')]"
  by (simp add: file_lines_def str_simps LF_def CR_def record_line_def CMD_SET_eq SP_def)

lemma record_of_set_a: "record_of (str ''SET a'') = None"
  by (simp add: record_of_def py_strip_def startswith_def CMD_SET_eq SP_def str_simps
      py_isspace_def numeral_2_eq_2 numeral_3_eq_3)

lemma file_lines_set_a: "file_lines (str ''SET a'') = [str ''SET a'']"
  by (simp add: file_lines_def str_simps LF_def CR_def)

text \<open>
  A run that breaks the invariant as the specification states it: the log ends with the
  cut-off record \<open>SET a\<close>, and the process is given \<open>SET b 2\<close>. The append
  succeeds and the store holds \<open>b\<close>, but the record lands on the line of the cut-off
  one, so the log replays to \<open>aSET \<mapsto> b 2\<close> and has no \<open>b\<close>.
\<close>
theorem cache_log_counterexample:
  "get_value (str ''b'') (snd (main False ReadOk [(str ''SET b 2'', Succeeds)] truncated_log))
     = Some (str ''2'')
   \<and> get_value (str ''b'')
       (snd (load_store ReadOk
          (restart (snd (main False ReadOk [(str ''SET b 2'', Succeeds)] truncated_log)))))
     = None"
proof -
  let ?st1 = "snd (load_store ReadOk truncated_log)"
  have s1: "store ?st1 = Map.empty" "data_file ?st1 = Some (str ''SET a'')"
    using file_lines_set_a record_of_set_a
    by (simp_all add: load_store_def truncated_log_def example_state_def load_line_record_of)
  let ?fin = "snd (main False ReadOk [(str ''SET b 2'', Succeeds)] truncated_log)"
  have fin: "store ?fin = [str ''b'' \<mapsto> str ''2'']"
      "data_file ?fin = Some (str ''SET a'' @ record_line (str ''b'') (str ''2''))"
    using s1
    by (simp_all add: main_ReadOk loop_body_set_b_2 main_store_file save_set_Succeeds file_text_def)
  have "store (snd (load_store ReadOk (restart ?fin))) = [str ''aSET'' \<mapsto> str ''b 2'']"
    using fin(2) file_lines_truncated record_of_truncated
    by (simp add: load_store_def restart_def load_line_record_of)
  moreover have "str ''b'' \<noteq> str ''aSET''" by (simp add: str_simps)
  ultimately show ?thesis using fin(1) by (simp add: get_value_def)
qed

text \<open>
  A carriage return inside a value breaks the invariant too: the file is read with
  universal newlines, so the record is read back as two lines.
\<close>

lemma split_set_k_cr:
  "py_split 2 (py_strip (str ''SET k a'' @ [CR] @ str ''b'')) = [CMD_SET, str ''k'', str ''a'' @ [CR] @ str ''b'']"
  by (simp add: py_strip_def str_simps py_isspace_def numeral_2_eq_2 CMD_SET_eq CR_def)

lemma carriage_return_splits_record:
  "get_value (str ''k'')
     (snd (main False ReadOk [(str ''SET k a'' @ [CR] @ str ''b'', Succeeds)] (example_state None)))
     = Some (str ''a'' @ [CR] @ str ''b'')
   \<and> get_value (str ''k'')
       (snd (load_store ReadOk (restart
          (snd (main False ReadOk [(str ''SET k a'' @ [CR] @ str ''b'', Succeeds)]
             (example_state None))))))
     = Some (str ''a'')"
proof -
  let ?line = "str ''SET k a'' @ [CR] @ str ''b''"
  let ?v = "str ''a'' @ [CR] @ str ''b''"
  let ?fin = "snd (main False ReadOk [(?line, Succeeds)] (example_state None))"
  have lb: "loop_body False Succeeds ?line st = (Continue, snd (save_set Succeeds (str ''k'') ?v st))" for st
    unfolding loop_body_def Let_def split_set_k_cr
    by (simp add: CMD_SET_eq CMD_GET_eq str_simps save_set_Succeeds)
  have fin: "store ?fin = [str ''k'' \<mapsto> ?v]"
      "data_file ?fin = Some (record_line (str ''k'') ?v)"
    using lb
    by (simp_all add: main_ReadOk load_store_def example_state_def main_store_file
        save_set_Succeeds file_text_def)
  have l: "file_lines (record_line (str ''k'') ?v) = [str ''SET k a'' @ [LF], str ''b'' @ [LF]]"
    by (simp add: file_lines_def str_simps LF_def CR_def record_line_def CMD_SET_eq SP_def)
  have r1: "record_of (str ''SET k a'' @ [LF]) = Some (str ''k'', str ''a'')"
    by (simp add: record_of_def py_strip_def startswith_def CMD_SET_eq SP_def str_simps LF_def
      py_isspace_def numeral_2_eq_2 numeral_3_eq_3)
  have r2: "record_of (str ''b'' @ [LF]) = None"
    by (simp add: record_of_def py_strip_def startswith_def CMD_SET_eq SP_def str_simps LF_def
      py_isspace_def numeral_2_eq_2 numeral_3_eq_3)
  have "store (snd (load_store ReadOk (restart ?fin))) = [str ''k'' \<mapsto> str ''a'']"
    using fin(2) l r1 r2 by (simp add: load_store_def restart_def load_line_record_of)
  then show ?thesis using fin(1) by (simp add: get_value_def)
qed

section \<open>The store and the log\<close>

text \<open>
  Claim C1, amended. When the log at startup is absent, empty or ends with a line
  terminator, startup replay reads it all and every input line is free of carriage
  returns and line feeds, then after any sequence of commands whose appends all succeed
  the store equals what a fresh process replays from the log, whether the loop ran to the
  end of the input, left at EXIT or stopped on an error.
\<close>
theorem cache_equals_log_replay:
  assumes "ends_with_newline (file_text disk)"
      and "\<forall>(line, io) \<in> set inputs. io = Succeeds \<and> one_line line"
  shows "store (snd (main interactive ReadOk inputs (restart disk)))
         = store (snd (load_store ReadOk (restart (snd (main interactive ReadOk inputs (restart disk))))))"
proof -
  have "store (restart disk) = Map.empty" "file_text (restart disk) = file_text disk"
    by (simp_all add: restart_def file_text_def)
  then have "consistent (snd (load_store ReadOk (restart disk)))"
    using assms(1) by (simp add: load_store_consistent)
  then have "consistent (banner interactive (snd (load_store ReadOk (restart disk))))"
    by (simp add: consistent_banner)
  then have "consistent (snd (main interactive ReadOk inputs (restart disk)))"
    unfolding main_ReadOk using assms(2) by (rule main_loop_consistent)
  then show ?thesis by (simp add: consistent_def replay_restart)
qed

lemma token_str_x: "is_token (str ''x'')" by (simp add: is_token_def str_simps py_isspace_def)
lemma trimmed_hello_world: "is_trimmed (str ''hello world'')"
  by (simp add: is_trimmed_def str_simps py_isspace_def)
lemma one_line_hello_world: "one_line (str ''hello world'')"
  by (simp add: one_line_def str_simps LF_def CR_def)

theorem cache_equals_log_replay_witness:
  "ends_with_newline (file_text (example_state None))
   \<and> one_line (str ''SET b 2'')
   \<and> store (snd (main True ReadOk [(str ''SET b 2'', Succeeds)] (restart (example_state None))))
       = store (snd (load_store ReadOk (restart
           (snd (main True ReadOk [(str ''SET b 2'', Succeeds)] (restart (example_state None)))))))"
proof -
  have a: "ends_with_newline (file_text (example_state None))"
    by (simp add: ends_with_newline_def file_text_def example_state_def)
  have b: "\<forall>(line, io) \<in> set [(str ''SET b 2'', Succeeds)]. io = Succeeds \<and> one_line line"
    by (simp add: one_line_def str_simps LF_def CR_def)
  have c: "one_line (str ''SET b 2'')"
    by (simp add: one_line_def str_simps LF_def CR_def)
  show ?thesis using a c cache_equals_log_replay[OF a b, of True] by simp
qed

text \<open>
  A value that does not survive the round trip: the key \<open>x\<close> has no whitespace, the
  value starts with a space, the append succeeds on a disk without a log, and a fresh
  process reads back the value without its leading space.
\<close>
theorem round_trip_counterexample:
  "is_token (str ''x'')
   \<and> get_value (str ''x'')
       (snd (load_store ReadOk
          (restart (snd (save_set Succeeds (str ''x'') (str '' hello world'') (example_state None))))))
     = Some (str ''hello world'')
   \<and> str ''hello world'' \<noteq> str '' hello world''"
proof -
  let ?st = "snd (save_set Succeeds (str ''x'') (str '' hello world'') (example_state None))"
  have f: "data_file ?st = Some (record_line (str ''x'') (str '' hello world''))"
    by (simp add: save_set_Succeeds file_text_def example_state_def)
  have l: "file_lines (record_line (str ''x'') (str '' hello world''))
      = [record_line (str ''x'') (str '' hello world'')]"
    by (simp add: file_lines_def str_simps LF_def CR_def record_line_def CMD_SET_eq SP_def)
  have r: "record_of (record_line (str ''x'') (str '' hello world''))
      = Some (str ''x'', str ''hello world'')"
    by (simp add: record_of_def py_strip_def startswith_def CMD_SET_eq SP_def str_simps LF_def
      py_isspace_def numeral_2_eq_2 numeral_3_eq_3 record_line_def)
  have "store (snd (load_store ReadOk (restart ?st))) = [str ''x'' \<mapsto> str ''hello world'']"
    using f l r by (simp add: load_store_def restart_def load_line_record_of)
  then show ?thesis using token_str_x by (simp add: get_value_def str_simps)
qed

text \<open>
  An empty value and an empty key are lost as well: the line that is written has two
  tokens only, and replay skips it.
\<close>

lemma empty_value_is_lost:
  "get_value (str ''x'')
     (snd (load_store ReadOk (restart (snd (save_set Succeeds (str ''x'') [] (example_state None)))))) = None"
proof -
  let ?st = "snd (save_set Succeeds (str ''x'') [] (example_state None))"
  have f: "data_file ?st = Some (record_line (str ''x'') [])"
    by (simp add: save_set_Succeeds file_text_def example_state_def)
  have l: "file_lines (record_line (str ''x'') []) = [record_line (str ''x'') []]"
    by (simp add: file_lines_def str_simps LF_def CR_def record_line_def CMD_SET_eq SP_def)
  have r: "record_of (record_line (str ''x'') []) = None"
    by (simp add: record_of_def py_strip_def startswith_def CMD_SET_eq SP_def str_simps LF_def
      py_isspace_def numeral_2_eq_2 numeral_3_eq_3 record_line_def)
  have "store (snd (load_store ReadOk (restart ?st))) = Map.empty"
    using f l r by (simp add: load_store_def restart_def load_line_record_of)
  then show ?thesis by (simp add: get_value_def)
qed

lemma empty_key_is_lost:
  "get_value []
     (snd (load_store ReadOk (restart (snd (save_set Succeeds [] (str ''v'') (example_state None)))))) = None"
proof -
  let ?st = "snd (save_set Succeeds [] (str ''v'') (example_state None))"
  have f: "data_file ?st = Some (record_line [] (str ''v''))"
    by (simp add: save_set_Succeeds file_text_def example_state_def)
  have l: "file_lines (record_line [] (str ''v'')) = [record_line [] (str ''v'')]"
    by (simp add: file_lines_def str_simps LF_def CR_def record_line_def CMD_SET_eq SP_def)
  have r: "record_of (record_line [] (str ''v'')) = None"
    by (simp add: record_of_def py_strip_def startswith_def CMD_SET_eq SP_def str_simps LF_def
      py_isspace_def numeral_2_eq_2 numeral_3_eq_3 record_line_def)
  have "store (snd (load_store ReadOk (restart ?st))) = Map.empty"
    using f l r by (simp add: load_store_def restart_def load_line_record_of)
  then show ?thesis by (simp add: get_value_def)
qed

text \<open>
  Claim C2, amended. For a key that is not empty and has no whitespace, and a value that
  is not empty, neither starts nor ends with whitespace and holds no line terminator, a
  successful \<open>save_set\<close> on a log that is absent, empty or ends with a line terminator,
  followed by a restart and replay, makes \<open>get_value\<close> return exactly that value; so
  it is for \<open>x\<close> and \<open>hello world\<close>.
\<close>
theorem round_trip:
  assumes "is_token key" "is_trimmed val" "one_line val" "ends_with_newline (file_text st)"
  shows "get_value key (snd (load_store ReadOk (restart (snd (save_set Succeeds key val st))))) = Some val"
proof -
  let ?st' = "snd (save_set Succeeds key val st)"
  have ft: "file_text ?st' = file_text st @ record_line key val"
    by (simp add: save_set_Succeeds file_text_def)
  have "store (snd (load_store ReadOk (restart ?st')))
      = foldl load_line Map.empty (file_lines (file_text st @ record_line key val))"
    by (simp add: replay_restart ft)
  also have "\<dots> = (foldl load_line Map.empty (file_lines (file_text st)))(key \<mapsto> val)"
    using assms by (simp add: record_append load_line_record)
  finally show ?thesis by (simp add: get_value_def)
qed

theorem round_trip_witness:
  "is_token (str ''x'') \<and> is_trimmed (str ''hello world'') \<and> one_line (str ''hello world'')
   \<and> ends_with_newline (file_text (example_state None))
   \<and> get_value (str ''x'')
       (snd (load_store ReadOk
          (restart (snd (save_set Succeeds (str ''x'') (str ''hello world'') (example_state None))))))
     = Some (str ''hello world'')"
proof -
  have e: "ends_with_newline (file_text (example_state None))"
    by (simp add: ends_with_newline_def file_text_def example_state_def)
  show ?thesis
    using round_trip[OF token_str_x trimmed_hello_world one_line_hello_world e]
      token_str_x trimmed_hello_world one_line_hello_world e
    by simp
qed

lemmas step_defs = py_open_def f_write_def f_flush_def os_fsync_def f_close_def store_assign_def
  with_exit_def emit_def file_text_def

lemma save_set_states_Succeeds:
  "save_set_states Succeeds key val st =
    [st\<lparr>data_file := Some (file_text st), buffer := [], events := events st @ [Opened]\<rparr>,
     st\<lparr>data_file := Some (file_text st), buffer := record_line key val,
        events := events st @ [Opened, Wrote (record_line key val)]\<rparr>,
     st\<lparr>data_file := Some (file_text st @ record_line key val), buffer := [],
        events := events st @ [Opened, Wrote (record_line key val), Flushed]\<rparr>,
     st\<lparr>data_file := Some (file_text st @ record_line key val),
        durable := Some (file_text st @ record_line key val), buffer := [],
        events := events st @ [Opened, Wrote (record_line key val), Flushed, Fsynced]\<rparr>,
     st\<lparr>data_file := Some (file_text st @ record_line key val),
        durable := Some (file_text st @ record_line key val), buffer := [],
        events := events st @ [Opened, Wrote (record_line key val), Flushed, Fsynced, Closed]\<rparr>,
     st\<lparr>store := (store st)(key \<mapsto> val),
        data_file := Some (file_text st @ record_line key val),
        durable := Some (file_text st @ record_line key val), buffer := [],
        events := events st @ [Opened, Wrote (record_line key val), Flushed, Fsynced, Closed]\<rparr>]"
  by (simp add: save_set_states_def save_set_body_def step_defs)

lemma save_set_states_Fails:
  "\<forall>s \<in> set (save_set_states (Fails step n) key val st). store s = store st"
  by (cases step) (simp_all add: save_set_states_def save_set_body_def step_defs)

lemma save_set_Fails_store: "store (snd (save_set (Fails step n) key val st)) = store st"
  by (cases step) (simp_all add: save_set_def save_set_body_def step_defs)

lemma save_set_Fails_fst: "fst (save_set (Fails step n) key val st) = None"
  by (cases step) (simp_all add: save_set_def save_set_body_def step_defs)

lemma save_set_EncodeFails:
  "save_set EncodeFails key val st =
     (Some UnicodeEncodeError,
      st\<lparr>data_file := Some (file_text st), buffer := [], events := events st @ [Opened, Closed]\<rparr>)"
  by (simp add: save_set_def save_set_body_def step_defs)

lemma save_set_states_EncodeFails:
  "\<forall>s \<in> set (save_set_states EncodeFails key val st). store s = store st"
  by (simp add: save_set_states_def save_set_body_def step_defs)

lemma save_set_Fails_events:
  "\<exists>ops. events (snd (save_set (Fails step n) key val st))
     = events st @ ops @ [LogError (str ''Error writing to data file'')]"
  by (cases step) (simp_all add: save_set_def save_set_body_def step_defs)

section \<open>Durability and failure of save_set\<close>

text \<open>
  Claim C3. In every state a call of \<open>save_set\<close> goes through, either the store is
  still the one the call started with, or the record has been written, flushed, synced
  and the handle closed, and the durable text of the log ends with the record. When every
  call on the file succeeds the store is assigned in the last step, on a state in which
  the record is durable already; when one fails the store is never assigned.
\<close>
theorem durable_before_cache_update:
  "(\<forall>s \<in> set (save_set_states io key val st).
       store s = store st \<or>
       (store s = (store st)(key \<mapsto> val)
        \<and> durable s = Some (file_text st @ record_line key val)
        \<and> data_file s = durable s
        \<and> events s = events st @ [Opened, Wrote (record_line key val), Flushed, Fsynced, Closed]))
   \<and> (io = Succeeds \<longrightarrow>
        (\<exists>s1 s2 s3 s4 s5.
           save_set_states io key val st = [s1, s2, s3, s4, s5, snd (save_set io key val st)]
           \<and> store s5 = store st
           \<and> durable s5 = Some (file_text st @ record_line key val)
           \<and> events s5 = events st @ [Opened, Wrote (record_line key val), Flushed, Fsynced, Closed]
           \<and> save_set io key val st = (None, s5\<lparr>store := (store st)(key \<mapsto> val)\<rparr>)))
   \<and> (io \<noteq> Succeeds \<longrightarrow> store (snd (save_set io key val st)) = store st)"
proof (cases io)
  case Succeeds
  show ?thesis unfolding Succeeds save_set_states_Succeeds save_set_Succeeds by simp
next
  case (Fails step n)
  show ?thesis unfolding Fails
    using save_set_states_Fails[of step n key val st] save_set_Fails_store[of step n key val st]
    by simp
next
  case EncodeFails
  show ?thesis unfolding EncodeFails
    using save_set_states_EncodeFails[of key val st]
    by (simp add: save_set_EncodeFails)
qed

theorem durable_before_cache_update_witness:
  "store (save_set_states Succeeds (str ''x'') (str ''1'') (example_state None) ! 4) = Map.empty
   \<and> durable (save_set_states Succeeds (str ''x'') (str ''1'') (example_state None) ! 4)
       = Some (record_line (str ''x'') (str ''1''))
   \<and> save_set Succeeds (str ''x'') (str ''1'') (example_state None)
       = (None,
          (save_set_states Succeeds (str ''x'') (str ''1'') (example_state None) ! 4)
            \<lparr>store := [str ''x'' \<mapsto> str ''1'']\<rparr>)
   \<and> store (snd (save_set (Fails AtFsync 0) (str ''x'') (str ''1'') (example_state None))) = Map.empty"
proof -
  have e: "store (example_state None) = Map.empty" "file_text (example_state None) = []"
    by (simp_all add: example_state_def file_text_def)
  obtain s1 s2 s3 s4 s5 where
    tr: "save_set_states Succeeds (str ''x'') (str ''1'') (example_state None)
           = [s1, s2, s3, s4, s5, snd (save_set Succeeds (str ''x'') (str ''1'') (example_state None))]"
    and s5: "store s5 = Map.empty" "durable s5 = Some (record_line (str ''x'') (str ''1''))"
      "save_set Succeeds (str ''x'') (str ''1'') (example_state None)
         = (None, s5\<lparr>store := [str ''x'' \<mapsto> str ''1'']\<rparr>)"
    using durable_before_cache_update[of Succeeds "str ''x''" "str ''1''" "example_state None"]
    unfolding e by auto
  have f: "store (snd (save_set (Fails AtFsync 0) (str ''x'') (str ''1'') (example_state None))) = Map.empty"
    using durable_before_cache_update[of "Fails AtFsync 0" "str ''x''" "str ''1''" "example_state None"]
    unfolding e by simp
  have n: "save_set_states Succeeds (str ''x'') (str ''1'') (example_state None) ! 4 = s5"
    unfolding tr by simp
  show ?thesis unfolding n using s5 f by simp
qed

text \<open>
  Claim C4. When a call on the file fails with an \<open>OSError\<close> in \<open>save_set\<close> (open,
  write, flush, sync, or the close that ends the \<open>with\<close> block), \<open>save_set\<close>
  returns without raising, the store is unchanged, the error is logged, and the loop of
  \<open>main\<close> goes on with the next line.
\<close>
theorem failed_append_leaves_cache:
  "io = Fails step n \<longrightarrow>
     fst (save_set io key val st) = None
     \<and> store (snd (save_set io key val st)) = store st
     \<and> (\<exists>ops. events (snd (save_set io key val st))
           = events st @ ops @ [LogError (str ''Error writing to data file'')])
     \<and> (length (py_split 2 (py_strip line)) \<ge> 3 \<and> py_split 2 (py_strip line) ! 0 = CMD_SET \<longrightarrow>
          fst (loop_body interactive io line st) = Continue
          \<and> store (snd (loop_body interactive io line st)) = store st
          \<and> main_loop interactive ((line, io) # rest) st
              = main_loop interactive rest (snd (loop_body interactive io line (prompt interactive st))))"
proof
  assume io: "io = Fails step n"
  let ?parts = "py_split 2 (py_strip line)"
  have lb: "fst (loop_body interactive io line st') = Continue
          \<and> store (snd (loop_body interactive io line st')) = store st'"
    if "length ?parts \<ge> 3" "?parts ! 0 = CMD_SET" for st'
  proof -
    have "line \<noteq> []" using that(1) by (auto simp: py_strip_def numeral_2_eq_2)
    moreover have "CMD_SET \<noteq> CMD_GET" by (simp add: CMD_SET_eq CMD_GET_eq)
    moreover obtain st2 where s: "save_set io (?parts ! 1) (?parts ! 2) st' = (None, st2)"
      using save_set_Fails_fst[of step n "?parts ! 1" "?parts ! 2" st']
      by (cases "save_set io (?parts ! 1) (?parts ! 2) st'") (simp add: io)
    moreover have "store st2 = store st'"
      using save_set_Fails_store[of step n "?parts ! 1" "?parts ! 2" st'] s by (simp add: io)
    ultimately show ?thesis using that
      by (simp add: loop_body_def Let_def emit_def)
  qed
  have ml: "main_loop interactive ((line, io) # rest) st
              = main_loop interactive rest (snd (loop_body interactive io line (prompt interactive st)))"
    if "length ?parts \<ge> 3" "?parts ! 0 = CMD_SET"
    using lb[OF that, of "prompt interactive st"]
    by (cases "loop_body interactive io line (prompt interactive st)") simp
  show "fst (save_set io key val st) = None
     \<and> store (snd (save_set io key val st)) = store st
     \<and> (\<exists>ops. events (snd (save_set io key val st))
           = events st @ ops @ [LogError (str ''Error writing to data file'')])
     \<and> (length ?parts \<ge> 3 \<and> ?parts ! 0 = CMD_SET \<longrightarrow>
          fst (loop_body interactive io line st) = Continue
          \<and> store (snd (loop_body interactive io line st)) = store st
          \<and> main_loop interactive ((line, io) # rest) st
              = main_loop interactive rest (snd (loop_body interactive io line (prompt interactive st))))"
    using lb[of st] ml save_set_Fails_store[of step n key val st]
      save_set_Fails_events[of step n key val st] save_set_Fails_fst[of step n key val st]
    unfolding io by blast
qed

theorem failed_append_leaves_cache_witness:
  "Fails AtFsync 0 = Fails AtFsync 0
   \<and> length (py_split 2 (py_strip (str ''SET b 2''))) \<ge> 3
   \<and> py_split 2 (py_strip (str ''SET b 2'')) ! 0 = CMD_SET
   \<and> store (snd (save_set (Fails AtFsync 0) (str ''b'') (str ''2'') (example_state None))) = Map.empty
   \<and> fst (loop_body True (Fails AtFsync 0) (str ''SET b 2'') (example_state None)) = Continue
   \<and> store (snd (loop_body True (Fails AtFsync 0) (str ''SET b 2'') (example_state None))) = Map.empty"
proof -
  have p: "length (py_split 2 (py_strip (str ''SET b 2''))) \<ge> 3"
      "py_split 2 (py_strip (str ''SET b 2'')) ! 0 = CMD_SET"
    by (simp_all add: split_set_b_2)
  have e: "store (example_state None) = Map.empty" by (simp add: example_state_def)
  show ?thesis
    using failed_append_leaves_cache[of "Fails AtFsync 0" AtFsync 0 "str ''b''" "str ''2''"
        "example_state None" "str ''SET b 2''" True "[]"] p
    unfolding e by simp
qed



text \<open>
  A line of whitespace only has no token: the test of the EXIT branch reads
  \<open>parts[0]\<close> of an empty list and the loop ends with an \<open>IndexError\<close>.
\<close>
lemma whitespace_line_raises: "loop_body interactive io [SP] st = (Raise IndexError, st)"
  by (simp add: loop_body_def py_strip_def isspace_SP numeral_2_eq_2)

text \<open>
  A record that the file's encoding cannot encode ends the loop as well: the
  \<open>UnicodeEncodeError\<close> of \<open>f.write\<close> is not an \<open>OSError\<close>, so it leaves
  \<open>save_set\<close> and the loop; the store is not assigned.
\<close>

lemma unencodable_record_raises:
  "fst (loop_body interactive EncodeFails (str ''SET b 2'') st) = Raise UnicodeEncodeError
   \<and> store (snd (loop_body interactive EncodeFails (str ''SET b 2'') st)) = store st"
  unfolding loop_body_def Let_def split_set_b_2
  by (simp add: CMD_SET_eq CMD_GET_eq str_simps save_set_EncodeFails)






end
